theory Spec2Isabelle
  imports Main "HOL-Library.Word" "HOL-Library.AList"
begin

section \<open>The leveled JSON logger of the blog service (package logger)\<close>

text \<open>
  The Go package keeps a \<^verbatim>\<open>Logger\<close> struct behind a pointer and derives new loggers
  with \<^verbatim>\<open>clone\<close>, which copies the struct: \<^verbatim>\<open>nl := *l; return &nl\<close>. No method
  ever assigns to a field of an existing struct, so a logger is modelled by its value (a
  record). The \<^verbatim>\<open>fields\<close> member is a Go map, that is a reference to a map object:
  copying the struct copies the reference. Map objects therefore live in an explicit store,
  and a logger holds an address (or nil). The caller slice is only ever replaced as a
  whole, never written through, so it is modelled by its contents (or nil).
\<close>

subsection \<open>Values, levels and the map store\<close>

text \<open>
  \<^verbatim>\<open>interface{}\<close> values: the three kinds the logger itself puts into a record
  (strings, the int64 time stamp, the caller slice), a channel (a value \<^verbatim>\<open>encoding/json\<close>
  has no representation for) and any other dynamic value. The logger inspects none of them.
\<close>

datatype any = Str string | Int64 "64 word" | Strs "string list option" | Chan nat | Other nat

text \<open>\<^verbatim>\<open>type Fields map[string]interface{}\<close>: the contents of one map object; ranging over
  the map visits the entries in list order (Go leaves the order open).\<close>

type_synonym Fields = "(string \<times> any) list"

text \<open>\<^verbatim>\<open>type Level int8\<close> with the six constants numbered by \<^verbatim>\<open>iota\<close>.\<close>

type_synonym Level = "8 word"

definition LevelDebug :: Level where "LevelDebug = 0"
definition LevelInfo :: Level where "LevelInfo = 1"
definition LevelWarn :: Level where "LevelWarn = 2"
definition LevelError :: Level where "LevelError = 3"
definition LevelFatal :: Level where "LevelFatal = 4"
definition LevelPanic :: Level where "LevelPanic = 5"

definition Level_String :: "Level \<Rightarrow> string" where
  "Level_String l =
     (if l = LevelDebug then ''debug''
      else if l = LevelInfo then ''info''
      else if l = LevelWarn then ''warn''
      else if l = LevelError then ''error''
      else if l = LevelFatal then ''fatal''
      else if l = LevelPanic then ''panic''
      else '''')"

text \<open>The store of map objects: the contents at each address and the next unused address.\<close>

type_synonym addr = nat

record heap =
  cells :: "addr \<Rightarrow> Fields"
  fresh :: addr

definition empty_heap :: heap where
  "empty_heap = \<lparr>cells = (\<lambda>_. []), fresh = 0\<rparr>"

text \<open>\<^verbatim>\<open>make(Fields)\<close>: a new, empty map object.\<close>

definition make_Fields :: "heap \<Rightarrow> heap \<times> addr" where
  "make_Fields h = (\<lparr>cells = (cells h)(fresh h := []), fresh = Suc (fresh h)\<rparr>, fresh h)"

text \<open>\<^verbatim>\<open>m[k] = v\<close> on the map object at address \<open>a\<close>.\<close>

definition map_assign :: "heap \<Rightarrow> addr \<Rightarrow> string \<Rightarrow> any \<Rightarrow> heap" where
  "map_assign h a k v = h\<lparr>cells := (cells h)(a := AList.update k v (cells h a))\<rparr>"

subsection \<open>The logger\<close>

text \<open>The parts of \<^verbatim>\<open>*log.Logger\<close> (standard library) that decide what is written: the
  writer it was created on, its prefix and its flags.\<close>

record log_Logger =
  out :: nat
  prefix :: string
  flag :: int

datatype Context = Context nat

record Logger =
  newLogger :: "log_Logger option"
  ctx :: "Context option"
  level :: Level
  fields' :: "addr option"
  callers :: "string list option"

definition log_New :: "nat \<Rightarrow> string \<Rightarrow> int \<Rightarrow> log_Logger" where
  "log_New w p f = \<lparr>out = w, prefix = p, flag = f\<rparr>"

text \<open>\<^verbatim>\<open>&Logger{newLogger: l}\<close>: every other member has its zero value.\<close>

definition NewLogger :: "nat \<Rightarrow> string \<Rightarrow> int \<Rightarrow> Logger" where
  "NewLogger w p f =
     \<lparr>newLogger = Some (log_New w p f), ctx = None, level = 0, fields' = None, callers = None\<rparr>"

text \<open>\<^verbatim>\<open>nl := *l; return &nl\<close>: a copy of the struct, member by member. The map reference
  and the slice are copied as they are.\<close>

definition clone :: "Logger \<Rightarrow> Logger" where
  "clone l = \<lparr>newLogger = newLogger l, ctx = ctx l, level = level l,
              fields' = fields' l, callers = callers l\<rparr>"

definition WithLevel :: "Logger \<Rightarrow> Level \<Rightarrow> Logger" where
  "WithLevel l lvl = (let ll = clone l in ll\<lparr>level := lvl\<rparr>)"

definition WithContext :: "Logger \<Rightarrow> Context option \<Rightarrow> Logger" where
  "WithContext l c = (let ll = clone l in ll\<lparr>ctx := c\<rparr>)"

text \<open>The loop \<^verbatim>\<open>for k, v := range f { ll.fields[k] = v }\<close>, writing into the map object
  at address \<open>a\<close>.\<close>

fun range_assign :: "heap \<Rightarrow> addr \<Rightarrow> Fields \<Rightarrow> heap" where
  "range_assign h a [] = h"
| "range_assign h a ((k, v) # f) = range_assign (map_assign h a k v) a f"

definition WithFields :: "heap \<Rightarrow> Logger \<Rightarrow> Fields \<Rightarrow> heap \<times> Logger" where
  "WithFields h l f =
     (let ll = clone l in
      case fields' ll of
        None \<Rightarrow> (let (h', a) = make_Fields h in (range_assign h' a f, ll\<lparr>fields' := Some a\<rparr>))
      | Some a \<Rightarrow> (range_assign h a f, ll))"

text \<open>What is read through a logger's \<^verbatim>\<open>fields\<close> member: a nil map reads as empty.\<close>

definition deref :: "heap \<Rightarrow> Logger \<Rightarrow> Fields" where
  "deref h l = (case fields' l of None \<Rightarrow> [] | Some a \<Rightarrow> cells h a)"

subsection \<open>Capturing callers\<close>

text \<open>
  The call stack of the goroutine at the moment a runtime function is entered, as the
  runtime's unwinder yields it: innermost frame first, the runtime function's own frame
  at index 0, the logger method that called it at index 1.
\<close>

record Frame =
  PC :: nat
  File :: string
  Line :: int
  Function :: string

record runtime =
  stack :: "Frame list"
  FuncForPC :: "nat \<Rightarrow> string option"

definition zeroFrame :: Frame where
  "zeroFrame = \<lparr>PC = 0, File = '''', Line = 0, Function = ''''\<rparr>"

text \<open>\<^verbatim>\<open>runtime.Caller(skip)\<close> asks the unwinder for one frame after skipping \<open>skip + 1\<close>
  (a count below one skips nothing); \<open>ok\<close> is \<open>frame.PC != 0\<close>. \<open>None\<close> is \<open>ok = false\<close>.\<close>

definition runtime_Caller :: "runtime \<Rightarrow> 64 word \<Rightarrow> (nat \<times> string \<times> int) option" where
  "runtime_Caller rt skip =
     (case drop (nat (sint (skip + 1))) (stack rt) of
        [] \<Rightarrow> None
      | f # _ \<Rightarrow> if PC f \<noteq> 0 then Some (PC f, File f, Line f) else None)"

text \<open>\<^verbatim>\<open>runtime.Callers(skip, pcs)\<close> fills \<open>pcs\<close> with at most \<open>len(pcs)\<close> entries after
  skipping \<open>skip\<close> frames, and \<^verbatim>\<open>runtime.CallersFrames(pcs[:depth])\<close> resolves them.\<close>

definition runtime_Callers :: "runtime \<Rightarrow> nat \<Rightarrow> nat \<Rightarrow> Frame list" where
  "runtime_Callers rt skip n = take n (drop skip (stack rt))"

text \<open>\<^verbatim>\<open>Frames.Next\<close>: the next frame, and whether a further frame remains after it. With
  no frame left it returns the zero frame and \<open>false\<close>.\<close>

fun Next :: "Frame list \<Rightarrow> (Frame \<times> bool) \<times> Frame list" where
  "Next [] = ((zeroFrame, False), [])"
| "Next [f] = ((f, False), [])"
| "Next (f # g # fs) = ((f, True), g # fs)"

fun digits :: "nat \<Rightarrow> string" where
  "digits n = (if n < 10 then [char_of (48 + n)]
               else digits (n div 10) @ [char_of (48 + n mod 10)])"

declare digits.simps [simp del]

definition itoa :: "int \<Rightarrow> string" where
  "itoa i = (if i < 0 then CHR ''-'' # digits (nat (- i)) else digits (nat i))"

text \<open>\<^verbatim>\<open>fmt.Sprintf("%s: %d %s", file, line, name)\<close>.\<close>

definition callerString :: "string \<Rightarrow> int \<Rightarrow> string \<Rightarrow> string" where
  "callerString file line name = file @ '': '' @ itoa line @ '' '' @ name"

text \<open>\<^verbatim>\<open>f.Name()\<close> on the result of \<^verbatim>\<open>runtime.FuncForPC\<close>: the empty string for a nil
  \<^verbatim>\<open>*Func\<close>.\<close>

definition Func_Name :: "string option \<Rightarrow> string" where
  "Func_Name f = (case f of None \<Rightarrow> [] | Some n \<Rightarrow> n)"

definition WithCaller :: "runtime \<Rightarrow> Logger \<Rightarrow> 64 word \<Rightarrow> Logger" where
  "WithCaller rt l skip =
     (let ll = clone l in
      case runtime_Caller rt skip of
        Some (pc, file, line) \<Rightarrow>
          (let f = FuncForPC rt pc in ll\<lparr>callers := Some [callerString file line (Func_Name f)]\<rparr>)
      | None \<Rightarrow> ll)"

text \<open>
  The loop of \<^verbatim>\<open>WithCallersFrames\<close>:
  \<^verbatim>\<open>for frame, more := frames.Next(); more; frame, more = frames.Next() { append; if !more { break } }\<close>.
  The arguments are the frames the iterator still holds, the current \<open>frame\<close> and
  \<open>more\<close>, and the slice built so far.
\<close>

function frames_loop :: "Frame list \<Rightarrow> Frame \<Rightarrow> bool \<Rightarrow> string list \<Rightarrow> string list" where
  "frames_loop frames frame more0 cs =
     (if more0 then
        (let cs' = cs @ [callerString (File frame) (Line frame) (Function frame)] in
         if \<not> more0 then cs'
         else (case Next frames of ((frame', more'), frames') \<Rightarrow> frames_loop frames' frame' more' cs'))
      else cs)"
  by pat_completeness auto
termination
proof (relation "measure (\<lambda>(frames, frame, more0, cs). length frames + (if more0 then 1 else 0))")
  show "wf (measure (\<lambda>(frames, frame, more0, cs). length frames + (if more0 then 1 else 0)))"
    by simp
next
  fix frames :: "Frame list" and frame :: Frame and more0 :: bool and cs cs' :: "string list"
    and x :: "Frame \<times> bool" and frames' :: "Frame list" and frame' :: Frame and more' :: bool
  assume "more0" and "(x, frames') = Next frames" and "(frame', more') = x"
  then have "Next frames = ((frame', more'), frames')" by simp
  with \<open>more0\<close>
  show "((frames', frame', more', cs'), (frames, frame, more0, cs))
      \<in> measure (\<lambda>(frames, frame, more0, cs). length frames + (if more0 then 1 else 0))"
    by (cases frames rule: Next.cases) auto
qed

declare frames_loop.simps [simp del]

definition WithCallersFrames :: "runtime \<Rightarrow> Logger \<Rightarrow> Logger" where
  "WithCallersFrames rt l =
     (let maxCallerDepth = 25;
          minCallerDepth = 1;
          cs = [];
          frames = runtime_Callers rt minCallerDepth maxCallerDepth;
          cs' = (case Next frames of ((frame, more0), frames') \<Rightarrow> frames_loop frames' frame more0 cs);
          ll = clone l
      in ll\<lparr>callers := Some cs'\<rparr>)"

subsection \<open>Building and writing the record\<close>

text \<open>
  What the emission path takes from outside the package: the clock
  (\<^verbatim>\<open>time.Now().Local().UnixNano()\<close>), \<^verbatim>\<open>json.Marshal\<close> (\<open>None\<close> when it returns an
  error; its byte slice is nil then), the header the standard line writer puts before a
  message for a given prefix and flags, and \<^verbatim>\<open>fmt.Sprint\<close> and \<^verbatim>\<open>fmt.Sprintf\<close>.
\<close>

record env =
  now :: "64 word"
  Marshal :: "Fields \<Rightarrow> string option"
  formatHeader :: "string \<Rightarrow> int \<Rightarrow> string"
  Sprint :: "any list \<Rightarrow> string"
  Sprintf :: "string \<Rightarrow> any list \<Rightarrow> string"

text \<open>The loop \<^verbatim>\<open>for k, v := range l.fields { if _, ok := data[k]; !ok { data[k] = v } }\<close>.\<close>

fun range_insert_absent :: "Fields \<Rightarrow> Fields \<Rightarrow> Fields" where
  "range_insert_absent [] data = data"
| "range_insert_absent ((k, v) # fs) data =
     range_insert_absent fs (if map_of data k = None then AList.update k v data else data)"

definition JSONFormat :: "env \<Rightarrow> heap \<Rightarrow> Logger \<Rightarrow> string \<Rightarrow> Fields" where
  "JSONFormat e h l message =
     (let data = [];
          data = AList.update ''level'' (Str (Level_String (level l))) data;
          data = AList.update ''time'' (Int64 (now e)) data;
          data = AList.update ''message'' (Str message) data;
          data = AList.update ''callers'' (Strs (callers l)) data
      in if length (deref h l) > 0 then range_insert_absent (deref h l) data else data)"

datatype panic = NilPointerDereference

definition newline :: char where
  "newline = CHR 0x0A"

text \<open>
  \<^verbatim>\<open>(*log.Logger).Print(s)\<close>: one \<^verbatim>\<open>Write\<close> to the logger's writer, of the header, the
  text and a line feed unless the text already ends with one. The state is, for every
  writer, the list of byte strings it has received. Calling it on a nil pointer panics.
\<close>

type_synonym sink = "nat \<Rightarrow> string list"

definition log_Print :: "env \<Rightarrow> log_Logger option \<Rightarrow> string \<Rightarrow> sink \<Rightarrow> panic + sink" where
  "log_Print e lg s ws =
     (case lg of
        None \<Rightarrow> Inl NilPointerDereference
      | Some g \<Rightarrow>
          (let buf = formatHeader e (prefix g) (flag g) @ s
                       @ (if s = [] \<or> last s \<noteq> newline then [newline] else [])
           in Inr (ws(out g := ws (out g) @ [buf]))))"

definition Output :: "env \<Rightarrow> heap \<Rightarrow> Logger \<Rightarrow> string \<Rightarrow> sink \<Rightarrow> panic + sink" where
  "Output e h l message ws =
     (let body = Marshal e (JSONFormat e h l message);
          content = (case body of None \<Rightarrow> [] | Some b \<Rightarrow> b)
      in if level l = LevelDebug then log_Print e (newLogger l) content ws
         else if level l = LevelInfo then log_Print e (newLogger l) content ws
         else if level l = LevelWarn then log_Print e (newLogger l) content ws
         else if level l = LevelError then log_Print e (newLogger l) content ws
         else if level l = LevelFatal then log_Print e (newLogger l) content ws
         else if level l = LevelPanic then log_Print e (newLogger l) content ws
         else Inr ws)"

subsection \<open>The leveled entry points\<close>

definition Debug :: "env \<Rightarrow> heap \<Rightarrow> Logger \<Rightarrow> any list \<Rightarrow> sink \<Rightarrow> panic + sink" where
  "Debug e h l v ws = Output e h (WithLevel l LevelDebug) (Sprint e v) ws"

definition Debugf :: "env \<Rightarrow> heap \<Rightarrow> Logger \<Rightarrow> string \<Rightarrow> any list \<Rightarrow> sink \<Rightarrow> panic + sink" where
  "Debugf e h l format v ws = Output e h (WithLevel l LevelDebug) (Sprintf e format v) ws"

definition Info :: "env \<Rightarrow> heap \<Rightarrow> Logger \<Rightarrow> any list \<Rightarrow> sink \<Rightarrow> panic + sink" where
  "Info e h l v ws = Output e h (WithLevel l LevelInfo) (Sprint e v) ws"

definition Infof :: "env \<Rightarrow> heap \<Rightarrow> Logger \<Rightarrow> string \<Rightarrow> any list \<Rightarrow> sink \<Rightarrow> panic + sink" where
  "Infof e h l format v ws = Output e h (WithLevel l LevelInfo) (Sprintf e format v) ws"

definition Fatal :: "env \<Rightarrow> heap \<Rightarrow> Logger \<Rightarrow> any list \<Rightarrow> sink \<Rightarrow> panic + sink" where
  "Fatal e h l v ws = Output e h (WithLevel l LevelFatal) (Sprint e v) ws"

definition Fatalf :: "env \<Rightarrow> heap \<Rightarrow> Logger \<Rightarrow> string \<Rightarrow> any list \<Rightarrow> sink \<Rightarrow> panic + sink" where
  "Fatalf e h l format v ws = Output e h (WithLevel l LevelFatal) (Sprintf e format v) ws"

definition Warn :: "env \<Rightarrow> heap \<Rightarrow> Logger \<Rightarrow> any list \<Rightarrow> sink \<Rightarrow> panic + sink" where
  "Warn e h l v ws = Output e h (WithLevel l LevelWarn) (Sprint e v) ws"

definition Warnf :: "env \<Rightarrow> heap \<Rightarrow> Logger \<Rightarrow> string \<Rightarrow> any list \<Rightarrow> sink \<Rightarrow> panic + sink" where
  "Warnf e h l format v ws = Output e h (WithLevel l LevelWarn) (Sprintf e format v) ws"

definition Error :: "env \<Rightarrow> heap \<Rightarrow> Logger \<Rightarrow> any list \<Rightarrow> sink \<Rightarrow> panic + sink" where
  "Error e h l v ws = Output e h (WithLevel l LevelError) (Sprint e v) ws"

definition Errorf :: "env \<Rightarrow> heap \<Rightarrow> Logger \<Rightarrow> string \<Rightarrow> any list \<Rightarrow> sink \<Rightarrow> panic + sink" where
  "Errorf e h l format v ws = Output e h (WithLevel l LevelError) (Sprintf e format v) ws"

definition Panic :: "env \<Rightarrow> heap \<Rightarrow> Logger \<Rightarrow> any list \<Rightarrow> sink \<Rightarrow> panic + sink" where
  "Panic e h l v ws = Output e h (WithLevel l LevelPanic) (Sprint e v) ws"

definition Panicf :: "env \<Rightarrow> heap \<Rightarrow> Logger \<Rightarrow> string \<Rightarrow> any list \<Rightarrow> sink \<Rightarrow> panic + sink" where
  "Panicf e h l format v ws = Output e h (WithLevel l LevelPanic) (Sprintf e format v) ws"

subsection \<open>Derivation sequences and the specification's reading of a leveled call\<close>

text \<open>One call of a derivation method, with the arguments it is given (and, for the two
  caller captures, the runtime state it runs in).\<close>

datatype derivation =
    CallWithLevel Level
  | CallWithFields Fields
  | CallWithContext "Context option"
  | CallWithCaller runtime "64 word"
  | CallWithCallersFrames runtime

fun derive :: "heap \<times> Logger \<Rightarrow> derivation \<Rightarrow> heap \<times> Logger" where
  "derive (h, l) (CallWithLevel lvl) = (h, WithLevel l lvl)"
| "derive (h, l) (CallWithFields f) = WithFields h l f"
| "derive (h, l) (CallWithContext c) = (h, WithContext l c)"
| "derive (h, l) (CallWithCaller rt skip) = (h, WithCaller rt l skip)"
| "derive (h, l) (CallWithCallersFrames rt) = (h, WithCallersFrames rt l)"

text \<open>A chain of derivations: each call is made on the logger the previous one returned.\<close>

fun derive_chain :: "heap \<times> Logger \<Rightarrow> derivation list \<Rightarrow> heap \<times> Logger" where
  "derive_chain s [] = s"
| "derive_chain s (d # ds) = derive_chain (derive s d) ds"

text \<open>The specification's description of a leveled call: derive a configuration with
  that severity, then emit the message.\<close>

definition withLevel_then_emit ::
  "env \<Rightarrow> heap \<Rightarrow> Logger \<Rightarrow> Level \<Rightarrow> string \<Rightarrow> sink \<Rightarrow> panic + sink" where
  "withLevel_then_emit e h l severity message ws = Output e h (WithLevel l severity) message ws"

text \<open>The six defined severities.\<close>

definition defined_levels :: "Level set" where
  "defined_levels = {LevelDebug, LevelInfo, LevelWarn, LevelError, LevelFatal, LevelPanic}"

text \<open>How one captured frame is rendered.\<close>

definition render :: "Frame \<Rightarrow> string" where
  "render f = callerString (File f) (Line f) (Function f)"

subsection \<open>Concrete inputs\<close>

text \<open>An environment whose serializer rejects exactly the records that hold a channel
  (\<^verbatim>\<open>json: unsupported type\<close>), and one whose serializer accepts every record; the line
  writer's header is the prefix alone (flags 0).\<close>

definition unsupported :: "any \<Rightarrow> bool" where
  "unsupported v = (case v of Chan _ \<Rightarrow> True | _ \<Rightarrow> False)"

definition env_rejecting :: env where
  "env_rejecting =
     \<lparr>now = 0,
      Marshal = (\<lambda>d. if list_ex (\<lambda>(k, v). unsupported v) d then None else Some ''{}''),
      formatHeader = (\<lambda>p f. p),
      Sprint = (\<lambda>_. ''db timeout''), Sprintf = (\<lambda>f _. f)\<rparr>"

definition env_accepting :: env where
  "env_accepting = \<lparr>now = 0, Marshal = (\<lambda>_. Some ''{}''), formatHeader = (\<lambda>p f. p),
                     Sprint = (\<lambda>_. ''db timeout''), Sprintf = (\<lambda>f _. f)\<rparr>"

definition root :: Logger where
  "root = NewLogger 0 [] 0"

definition no_writes :: sink where
  "no_writes = (\<lambda>_. [])"

definition frame_a :: Frame where
  "frame_a = \<lparr>PC = 4096, File = ''logger.go'', Line = 95, Function = ''logger.capture''\<rparr>"

definition frame_b :: Frame where
  "frame_b = \<lparr>PC = 8192, File = ''main.go'', Line = 12, Function = ''main.main''\<rparr>"

definition frame_rt :: Frame where
  "frame_rt = \<lparr>PC = 512, File = ''extern.go'', Line = 1, Function = ''runtime.walk''\<rparr>"

definition rt_two :: runtime where
  "rt_two = \<lparr>stack = [frame_rt, frame_a, frame_b], FuncForPC = (\<lambda>_. None)\<rparr>"

definition rt_one :: runtime where
  "rt_one = \<lparr>stack = [frame_rt, frame_a], FuncForPC = (\<lambda>_. None)\<rparr>"

text \<open>A stack of thirty frames above the runtime function's own.\<close>

definition rt_deep :: runtime where
  "rt_deep = \<lparr>stack = frame_rt # replicate 30 frame_b, FuncForPC = (\<lambda>_. None)\<rparr>"

text \<open>A logger that already carries a caller, one whose field set holds a reserved key and
  an ordinary one, and one whose level is none of the six constants.\<close>

definition with_old_caller :: Logger where
  "with_old_caller = root\<lparr>callers := Some [''old.go: 1 old'']\<rparr>"

definition with_message_field :: "heap \<times> Logger" where
  "with_message_field =
     WithFields empty_heap root [(''message'', Str ''evil''), (''service'', Str ''auth'')]"

definition with_level_six :: Logger where
  "with_level_six = WithLevel root 6"

text \<open>A logger derived from the root with one field whose value is a channel:
  \<^verbatim>\<open>NewLogger(w, "", 0).WithFields(Fields{"conn": make(chan int)})\<close>.\<close>

definition with_chan_field :: "heap \<times> Logger" where
  "with_chan_field = WithFields empty_heap root [(''conn'', Chan 0)]"

text \<open>A derivation chain that starts from the root while another map object exists.\<close>

definition chain_example :: "heap \<times> Logger" where
  "chain_example =
     derive_chain (WithFields (fst with_message_field) root [(''a'', Str ''1'')])
       [CallWithFields [(''b'', Str ''2'')], CallWithLevel LevelInfo]"

section \<open>Properties\<close>

subsection \<open>Auxiliary facts\<close>

lemma clone_id: "clone l = l"
  by (simp add: clone_def)

lemma map_of_range_insert_absent:
  "map_of (range_insert_absent fs data) k =
     (case map_of data k of Some v \<Rightarrow> Some v | None \<Rightarrow> map_of fs k)"
proof (induction fs arbitrary: data)
  case Nil
  then show ?case by (simp split: option.splits)
next
  case (Cons p fs)
  obtain k' v' where p: "p = (k', v')" by (cases p)
  show ?case
    unfolding p by (simp add: Cons.IH update_conv' split: option.splits)
qed

lemma distinct_range_insert_absent:
  "distinct (map fst data) \<Longrightarrow> distinct (map fst (range_insert_absent fs data))"
proof (induction fs arbitrary: data)
  case Nil
  then show ?case by simp
next
  case (Cons p fs)
  obtain k v where p: "p = (k, v)" by (cases p)
  from Cons.prems have "distinct (map fst (if map_of data k = None then AList.update k v data else data))"
    by (simp add: distinct_update)
  then show ?case
    unfolding p range_insert_absent.simps by (rule Cons.IH)
qed

lemma map_of_JSONFormat:
  "map_of (JSONFormat e h l message) k =
     (if k = ''callers'' then Some (Strs (callers l))
      else if k = ''message'' then Some (Str message)
      else if k = ''time'' then Some (Int64 (now e))
      else if k = ''level'' then Some (Str (Level_String (level l)))
      else map_of (deref h l) k)"
proof (cases "deref h l")
  case Nil
  then show ?thesis by (simp add: JSONFormat_def)
next
  case (Cons p ps)
  then show ?thesis
    by (simp add: JSONFormat_def map_of_range_insert_absent del: range_insert_absent.simps)
qed

lemma fresh_range_assign: "fresh (range_assign h a f) = fresh h"
  by (induction h a f rule: range_assign.induct) (simp_all add: map_assign_def)

lemma cells_range_assign_other: "b \<noteq> a \<Longrightarrow> cells (range_assign h a f) b = cells h b"
  by (induction h a f rule: range_assign.induct) (simp_all add: map_assign_def)

lemma map_of_cells_range_assign:
  "map_of (cells (range_assign h a f) a) = map_of (cells h a) ++ map_of (rev f)"
proof (induction h a f rule: range_assign.induct)
  case (1 h a)
  then show ?case by simp
next
  case (2 h a k v f)
  then show ?case
    by (simp add: map_assign_def update_conv' map_add_upd_left fun_eq_iff map_add_def split: option.splits)
qed

lemma frames_loop_False: "frames_loop frames frame False cs = cs"
  by (simp add: frames_loop.simps)

lemma frames_loop_True:
  "frames_loop frames frame True cs =
     (case Next frames of ((frame', more'), frames') \<Rightarrow>
        frames_loop frames' frame' more' (cs @ [callerString (File frame) (Line frame) (Function frame)]))"
  by (subst frames_loop.simps) simp

lemma frames_loop_Next:
  "(case Next fs of ((frame, more0), frames') \<Rightarrow> frames_loop frames' frame more0 cs) =
     cs @ map (\<lambda>f. callerString (File f) (Line f) (Function f)) (butlast fs)"
proof (induction fs arbitrary: cs)
  case Nil
  then show ?case by (simp add: frames_loop_False)
next
  case (Cons f fs)
  note IH = Cons.IH
  show ?case
  proof (cases fs)
    case Nil
    then show ?thesis by (simp add: frames_loop_False)
  next
    case more_frames: (Cons g gs)
    have "(case Next (f # fs) of ((frame, more0), frames') \<Rightarrow> frames_loop frames' frame more0 cs)
          = frames_loop fs f True cs"
      by (simp add: more_frames)
    also have "\<dots> = (case Next fs of ((frame', more'), frames') \<Rightarrow>
          frames_loop frames' frame' more' (cs @ [callerString (File f) (Line f) (Function f)]))"
      by (rule frames_loop_True)
    also have "\<dots> = (cs @ [callerString (File f) (Line f) (Function f)])
          @ map (\<lambda>f. callerString (File f) (Line f) (Function f)) (butlast fs)"
      by (rule IH)
    finally show ?thesis by (simp add: more_frames)
  qed
qed

lemma callers_WithCallersFrames:
  "callers (WithCallersFrames rt l) =
     Some (map (\<lambda>f. callerString (File f) (Line f) (Function f)) (butlast (runtime_Callers rt 1 25)))"
  by (simp add: WithCallersFrames_def Let_def frames_loop_Next)

lemma callers_WithCallersFrames_render:
  "callers (WithCallersFrames rt l) = Some (map render (butlast (runtime_Callers rt 1 25)))"
  by (simp add: callers_WithCallersFrames render_def)

lemma Output_defined:
  assumes "level l \<in> defined_levels"
  shows "Output e h l message ws =
     log_Print e (newLogger l)
       (case Marshal e (JSONFormat e h l message) of None \<Rightarrow> [] | Some b \<Rightarrow> b) ws"
  using assms by (auto simp add: Output_def defined_levels_def Let_def)

lemma Output_undefined:
  assumes "level l \<notin> defined_levels"
  shows "Output e h l message ws = Inr ws"
  using assms by (simp add: defined_levels_def Output_def Let_def)

lemma Output_returns:
  assumes "newLogger l = Some g"
  shows "\<exists>ws'. Output e h l message ws = Inr ws'"
proof (cases "level l \<in> defined_levels")
  case True
  with assms show ?thesis
    by (simp add: Output_defined log_Print_def)
next
  case False
  then show ?thesis
    by (simp add: Output_undefined)
qed

lemma newLogger_WithLevel: "newLogger (WithLevel l lvl) = newLogger l"
  by (simp add: WithLevel_def clone_id)

lemma WithFields_frame:
  assumes "WithFields h l f = (h', l')"
    and "\<forall>a. fields' l = Some a \<longrightarrow> n \<le> a"
    and "n \<le> fresh h"
  shows "(\<forall>a. fields' l' = Some a \<longrightarrow> n \<le> a) \<and> n \<le> fresh h' \<and> (\<forall>a<n. cells h' a = cells h a)"
proof (cases "fields' l")
  case None
  with assms(1) have h': "h' = range_assign (fst (make_Fields h)) (fresh h) f"
    and l': "l' = l\<lparr>fields' := Some (fresh h)\<rparr>"
    by (simp_all add: WithFields_def clone_id make_Fields_def Let_def)
  have "cells h' a = cells h a" if "a < n" for a
  proof -
    from that assms(3) have "a \<noteq> fresh h" by simp
    then show ?thesis
      by (simp add: h' cells_range_assign_other make_Fields_def)
  qed
  moreover have "fresh h' = Suc (fresh h)"
    by (simp add: h' fresh_range_assign make_Fields_def)
  ultimately show ?thesis
    using assms(3) by (simp add: l')
next
  case (Some b)
  with assms(1) have h': "h' = range_assign h b f" and l': "l' = l"
    by (simp_all add: WithFields_def clone_id)
  from Some assms(2) have "n \<le> b" by simp
  then have "cells h' a = cells h a" if "a < n" for a
    using that by (simp add: h' cells_range_assign_other)
  then show ?thesis
    using assms(2,3) by (simp add: l' h' fresh_range_assign)
qed

lemma derive_frame:
  assumes "derive (h, l) d = (h', l')"
    and "\<forall>a. fields' l = Some a \<longrightarrow> n \<le> a"
    and "n \<le> fresh h"
  shows "(\<forall>a. fields' l' = Some a \<longrightarrow> n \<le> a) \<and> n \<le> fresh h' \<and> (\<forall>a<n. cells h' a = cells h a)"
proof (cases d)
  case (CallWithLevel lvl)
  with assms show ?thesis by (auto simp add: WithLevel_def clone_id)
next
  case (CallWithFields f)
  with assms(1) have "WithFields h l f = (h', l')" by simp
  then show ?thesis using assms(2,3) by (rule WithFields_frame)
next
  case (CallWithContext c)
  with assms show ?thesis by (auto simp add: WithContext_def clone_id)
next
  case (CallWithCaller rt skip)
  with assms show ?thesis
    by (auto simp add: WithCaller_def clone_id Let_def split: option.splits)
next
  case (CallWithCallersFrames rt)
  with assms show ?thesis by (auto simp add: WithCallersFrames_def clone_id Let_def)
qed

lemma derive_chain_frame:
  assumes "derive_chain (h, l) ds = (h', l')"
    and "\<forall>a. fields' l = Some a \<longrightarrow> n \<le> a"
    and "n \<le> fresh h"
  shows "\<forall>a<n. cells h' a = cells h a"
  using assms
proof (induction ds arbitrary: h l)
  case Nil
  then show ?case by simp
next
  case (Cons d ds)
  obtain h1 l1 where step: "derive (h, l) d = (h1, l1)"
    by (cases "derive (h, l) d")
  from derive_frame [OF step Cons.prems(2,3)]
  have inv: "\<forall>a. fields' l1 = Some a \<longrightarrow> n \<le> a" "n \<le> fresh h1"
    and same: "\<forall>a<n. cells h1 a = cells h a"
    by simp_all
  from Cons.prems(1) step have "derive_chain (h1, l1) ds = (h', l')" by simp
  from Cons.IH [OF this inv] same show ?case by simp
qed

subsection \<open>Derivations and the receiver's field set\<close>

text \<open>
  C1 (the code departs from the claim). The claim: \<^verbatim>\<open>WithFields\<close> never changes the field
  set of the logger it is called on. On a logger whose field set is a map object, the clone
  holds the same map object and the loop writes into it. Below, the second call adds the
  key \<open>b\<close> to the map the first derived logger holds: read through that logger, the field
  set was \<open>[a]\<close> before the call and is \<open>[a, b]\<close> after it, and both loggers hold
  address 0.
\<close>

theorem WithFields_shares_map:
  "(case WithFields empty_heap root [(''a'', Str ''1'')] of (h1, l1) \<Rightarrow>
     (case WithFields h1 l1 [(''b'', Str ''2'')] of (h2, l2) \<Rightarrow>
        (deref h1 l1, deref h2 l1, fields' l1, fields' l2)))
   = ([(''a'', Str ''1'')], [(''a'', Str ''1''), (''b'', Str ''2'')], Some 0, Some 0)"
  by (simp add: WithFields_def root_def NewLogger_def clone_def make_Fields_def empty_heap_def
      map_assign_def deref_def Let_def)

text \<open>
  C8. On a logger whose field set is nil, \<^verbatim>\<open>WithFields\<close> allocates a new map object (at
  an address not in use before) and writes the additions into it; the maps that existed
  before are untouched. Whatever chain of derivations follows on the returned logger, the
  receiver still reads an empty field set and the earlier map objects keep their contents.
\<close>

theorem WithFields_nil_receiver:
  assumes "fields' l = None"
    and "WithFields h l f = (h1, l1)"
    and "derive_chain (h1, l1) ds = (h2, l2)"
  shows "fields' l1 = Some (fresh h) \<and> fresh h1 = Suc (fresh h)
   \<and> map_of (cells h1 (fresh h)) = map_of (rev f)
   \<and> (\<forall>a<fresh h. cells h1 a = cells h a)
   \<and> deref h1 l = [] \<and> deref h2 l = []
   \<and> (\<forall>a<fresh h. cells h2 a = cells h a)"
proof -
  from assms(1,2) have h1: "h1 = range_assign (fst (make_Fields h)) (fresh h) f"
    and l1: "l1 = l\<lparr>fields' := Some (fresh h)\<rparr>"
    by (simp_all add: WithFields_def clone_id make_Fields_def Let_def)
  have a: "fields' l1 = Some (fresh h)" by (simp add: l1)
  have b: "fresh h1 = Suc (fresh h)"
    by (simp add: h1 fresh_range_assign make_Fields_def)
  have c: "map_of (cells h1 (fresh h)) = map_of (rev f)"
    unfolding h1 map_of_cells_range_assign by (simp add: make_Fields_def)
  have d: "\<forall>a<fresh h. cells h1 a = cells h a"
    by (simp add: h1 cells_range_assign_other make_Fields_def)
  have e: "deref h1 l = []" "deref h2 l = []"
    using assms(1) by (simp_all add: deref_def)
  have "\<forall>a. fields' l1 = Some a \<longrightarrow> fresh h \<le> a" by (simp add: l1)
  moreover have "fresh h \<le> fresh h1" by (simp add: b)
  ultimately have "\<forall>a<fresh h. cells h2 a = cells h1 a"
    using assms(3) derive_chain_frame by blast
  with d have "\<forall>a<fresh h. cells h2 a = cells h a" by simp
  with a b c d e show ?thesis by simp
qed

theorem WithFields_nil_receiver_witness:
  "fields' root = None
   \<and> (0::nat) < fresh (fst with_message_field)
   \<and> fields' (snd (WithFields (fst with_message_field) root [(''a'', Str ''1'')])) = Some 1
   \<and> deref (fst chain_example) root = []
   \<and> cells (fst chain_example) 0 = cells (fst with_message_field) 0"
proof -
  have n: "fields' root = None"
    by (simp add: root_def NewLogger_def)
  have f: "fresh (fst with_message_field) = 1"
    by (simp add: with_message_field_def WithFields_def root_def NewLogger_def clone_def
        make_Fields_def empty_heap_def map_assign_def Let_def)
  have w: "WithFields (fst with_message_field) root [(''a'', Str ''1'')]
             = (fst (WithFields (fst with_message_field) root [(''a'', Str ''1'')]),
                snd (WithFields (fst with_message_field) root [(''a'', Str ''1'')]))"
    by simp
  have c: "derive_chain (fst (WithFields (fst with_message_field) root [(''a'', Str ''1'')]),
                snd (WithFields (fst with_message_field) root [(''a'', Str ''1'')]))
             [CallWithFields [(''b'', Str ''2'')], CallWithLevel LevelInfo]
           = (fst chain_example, snd chain_example)"
    by (simp add: chain_example_def)
  show ?thesis
    using n WithFields_nil_receiver [OF n w c]
    by (simp add: f)
qed

subsection \<open>Caller capture\<close>

text \<open>
  C6. When \<^verbatim>\<open>runtime.Caller\<close> resolves no frame at the given skip depth,
  \<^verbatim>\<open>WithCaller\<close> returns a logger equal to the receiver, caller sequence included. When
  it resolves one, the returned logger differs from the receiver only in its caller
  sequence, which is the single rendered frame.
\<close>

theorem WithCaller_unresolved:
  "(runtime_Caller rt skip = None \<longrightarrow> WithCaller rt l skip = l)
   \<and> (\<forall>pc file line. runtime_Caller rt skip = Some (pc, file, line) \<longrightarrow>
         WithCaller rt l skip
           = l\<lparr>callers := Some [callerString file line (Func_Name (FuncForPC rt pc))]\<rparr>)"
  by (simp add: WithCaller_def clone_id Let_def)

theorem WithCaller_unresolved_witness:
  "runtime_Caller rt_one 1 = None
   \<and> WithCaller rt_one with_old_caller 1 = with_old_caller
   \<and> runtime_Caller rt_one 0 = Some (4096, ''logger.go'', 95)
   \<and> callers (WithCaller rt_one with_old_caller 0) = Some [''logger.go: 95 '']"
proof -
  have n: "runtime_Caller rt_one 1 = None"
    by (simp add: runtime_Caller_def rt_one_def)
  have s: "runtime_Caller rt_one 0 = Some (4096, ''logger.go'', 95)"
    by (simp add: runtime_Caller_def rt_one_def frame_a_def)
  have i: "itoa 95 = ''95''"
    by code_simp
  show ?thesis
    using n s WithCaller_unresolved [of rt_one 1 with_old_caller]
      WithCaller_unresolved [of rt_one 0 with_old_caller]
    by (simp add: callerString_def i Func_Name_def rt_one_def)
qed

text \<open>
  C5 (the code departs from the claim). The claim: \<^verbatim>\<open>WithCallersFrames\<close> replaces the
  caller sequence with the newly captured list, of at most 25 entries. The loop condition
  \<open>more\<close> is false for the last frame \<^verbatim>\<open>Next\<close> returns, so that frame is never appended
  (the \<^verbatim>\<open>if !more { break }\<close> in the body can never fire): what is stored is the captured
  list without its last frame. With two frames captured, only the first is stored; with a
  stack deep enough to fill all 25 entries, 24 are stored.
\<close>

theorem WithCallersFrames_stores_butlast:
  "callers (WithCallersFrames rt l) = Some (map render (butlast (runtime_Callers rt 1 25)))
   \<and> runtime_Callers rt_two 1 25 = [frame_a, frame_b]
   \<and> callers (WithCallersFrames rt_two with_old_caller) = Some [render frame_a]
   \<and> runtime_Callers rt_deep 1 25 = replicate 25 frame_b
   \<and> callers (WithCallersFrames rt_deep with_old_caller) = Some (replicate 24 (render frame_b))"
proof -
  have two: "runtime_Callers rt_two 1 25 = [frame_a, frame_b]"
    by (simp add: runtime_Callers_def rt_two_def)
  have deep: "runtime_Callers rt_deep 1 25 = replicate 25 frame_b"
    by (simp add: runtime_Callers_def rt_deep_def)
  have b: "butlast (replicate 25 frame_b) = replicate 24 frame_b"
    by (simp add: butlast_conv_take)
  have stored: "callers (WithCallersFrames r c) = Some (map render (butlast (runtime_Callers r 1 25)))"
    for r c
    by (rule callers_WithCallersFrames_render)
  have s2: "callers (WithCallersFrames rt_two with_old_caller) = Some [render frame_a]"
    unfolding stored two by simp
  have sd: "callers (WithCallersFrames rt_deep with_old_caller) = Some (replicate 24 (render frame_b))"
    unfolding stored deep b by simp
  from stored two s2 deep sd show ?thesis
    by blast
qed

text \<open>
  C9. When the walk reports \<open>n \<ge> 1\<close> frames, \<^verbatim>\<open>WithCallersFrames\<close> stores the first
  \<open>n - 1\<close> of them, rendered, and leaves the last one out; a walk of exactly one frame
  gives the empty sequence.
\<close>

theorem WithCallersFrames_drops_last:
  assumes "runtime_Callers rt 1 25 = fs" and "1 \<le> length fs"
  shows "callers (WithCallersFrames rt l) = Some (map render (take (length fs - 1) fs))
   \<and> (length fs = 1 \<longrightarrow> callers (WithCallersFrames rt l) = Some [])"
  using assms by (auto simp add: callers_WithCallersFrames_render butlast_conv_take)

theorem WithCallersFrames_drops_last_witness:
  "runtime_Callers rt_two 1 25 = [frame_a, frame_b]
   \<and> 1 \<le> length [frame_a, frame_b]
   \<and> callers (WithCallersFrames rt_two root) = Some [render frame_a]
   \<and> runtime_Callers rt_one 1 25 = [frame_a]
   \<and> length [frame_a] = 1
   \<and> callers (WithCallersFrames rt_one root) = Some []"
proof -
  have two: "runtime_Callers rt_two 1 25 = [frame_a, frame_b]"
    by (simp add: runtime_Callers_def rt_two_def)
  have one: "runtime_Callers rt_one 1 25 = [frame_a]"
    by (simp add: runtime_Callers_def rt_one_def)
  show ?thesis
    using two one WithCallersFrames_drops_last [OF two, of root]
      WithCallersFrames_drops_last [OF one, of root]
    by simp
qed

subsection \<open>The record\<close>

text \<open>
  C3. In the record \<^verbatim>\<open>JSONFormat\<close> builds, the four reserved keys hold the level's
  string, the time stamp, the message argument and the caller sequence, whatever the field
  set contains; every other key holds what the field set holds for it; and no key occurs
  twice. So a field named \<open>message\<close> is dropped and the record's \<open>message\<close> is the
  argument.
\<close>

theorem JSONFormat_reserved_keys:
  "map_of (JSONFormat e h l message) ''level'' = Some (Str (Level_String (level l)))
   \<and> map_of (JSONFormat e h l message) ''time'' = Some (Int64 (now e))
   \<and> map_of (JSONFormat e h l message) ''message'' = Some (Str message)
   \<and> map_of (JSONFormat e h l message) ''callers'' = Some (Strs (callers l))
   \<and> (\<forall>k. k \<notin> {''level'', ''time'', ''message'', ''callers''} \<longrightarrow>
          map_of (JSONFormat e h l message) k = map_of (deref h l) k)
   \<and> distinct (map fst (JSONFormat e h l message))"
proof -
  have "distinct (map fst (JSONFormat e h l message))"
    by (simp add: JSONFormat_def Let_def distinct_range_insert_absent)
  then show ?thesis
    by (simp add: map_of_JSONFormat)
qed

theorem JSONFormat_reserved_keys_witness:
  "map_of (deref (fst with_message_field) (snd with_message_field)) ''message'' = Some (Str ''evil'')
   \<and> map_of (JSONFormat env_accepting (fst with_message_field) (snd with_message_field) ''hello'')
        ''message'' = Some (Str ''hello'')
   \<and> ''service'' \<notin> {''level'', ''time'', ''message'', ''callers''}
   \<and> map_of (JSONFormat env_accepting (fst with_message_field) (snd with_message_field) ''hello'')
        ''service'' = Some (Str ''auth'')"
proof -
  have d: "deref (fst with_message_field) (snd with_message_field)
             = [(''message'', Str ''evil''), (''service'', Str ''auth'')]"
    by (simp add: with_message_field_def WithFields_def root_def NewLogger_def clone_def
        make_Fields_def empty_heap_def map_assign_def deref_def Let_def)
  show ?thesis
    using JSONFormat_reserved_keys
      [of env_accepting "fst with_message_field" "snd with_message_field" "''hello''"]
    by (simp add: d)
qed

subsection \<open>Emission\<close>

text \<open>
  C4. For a level among the six constants, a record that serializes and a logger with a
  line writer, \<^verbatim>\<open>Output\<close> makes exactly one write to the logger's writer, of the header,
  the JSON text and the line end, and touches no other writer. The same holds for each of
  the six levels; two levels give records that differ at most in the \<open>level\<close> key.
\<close>

theorem Output_writes_once:
  assumes "level l \<in> defined_levels"
    and "Marshal e (JSONFormat e h l message) = Some body"
    and "newLogger l = Some g"
  shows "Output e h l message ws =
     Inr (ws(out g := ws (out g) @
        [formatHeader e (prefix g) (flag g) @ body
           @ (if body = [] \<or> last body \<noteq> newline then [newline] else [])]))
   \<and> (\<forall>a b k. k \<noteq> ''level'' \<longrightarrow>
         map_of (JSONFormat e h (WithLevel l a) message) k
           = map_of (JSONFormat e h (WithLevel l b) message) k)"
proof -
  have "\<forall>a b k. k \<noteq> ''level'' \<longrightarrow>
         map_of (JSONFormat e h (WithLevel l a) message) k
           = map_of (JSONFormat e h (WithLevel l b) message) k"
    by (simp add: map_of_JSONFormat WithLevel_def clone_def deref_def)
  with assms show ?thesis
    by (simp add: Output_defined log_Print_def)
qed

theorem Output_writes_once_witness:
  "level root \<in> defined_levels
   \<and> Marshal env_accepting (JSONFormat env_accepting empty_heap root ''hello'') = Some ''{}''
   \<and> newLogger root = Some (log_New 0 [] 0)
   \<and> Output env_accepting empty_heap root ''hello'' no_writes
        = Inr (no_writes(0 := [''{}'' @ [newline]]))
   \<and> ''message'' \<noteq> ''level''
   \<and> map_of (JSONFormat env_accepting empty_heap (WithLevel root LevelInfo) ''hello'') ''message''
        = map_of (JSONFormat env_accepting empty_heap (WithLevel root LevelPanic) ''hello'') ''message''"
proof -
  have m: "Marshal env_accepting (JSONFormat env_accepting empty_heap root ''hello'') = Some ''{}''"
    by (simp add: env_accepting_def)
  have d: "level root \<in> defined_levels"
    by (simp add: root_def NewLogger_def defined_levels_def LevelDebug_def)
  have g: "newLogger root = Some (log_New 0 [] 0)"
    by (simp add: root_def NewLogger_def)
  show ?thesis
    using m d g Output_writes_once [OF d m g, of no_writes]
    by (simp add: log_New_def env_accepting_def no_writes_def newline_def)
qed

text \<open>
  C2 (as stated, it fails). The claim: when serialization fails, the writer receives
  nothing. \<^verbatim>\<open>Output\<close> discards the error of \<^verbatim>\<open>json.Marshal\<close> and prints the empty
  text. On the logger whose field \<open>conn\<close> is a channel the record does not serialize, and
  the writer receives one write, a line feed.
\<close>

theorem Output_marshal_failure_counterexample:
  "deref (fst with_chan_field) (snd with_chan_field) = [(''conn'', Chan 0)]
   \<and> Marshal env_rejecting
         (JSONFormat env_rejecting (fst with_chan_field) (snd with_chan_field) ''hello'') = None
   \<and> Output env_rejecting (fst with_chan_field) (snd with_chan_field) ''hello'' no_writes
         = Inr (no_writes(0 := [[newline]]))"
proof -
  have l: "snd with_chan_field = root\<lparr>fields' := Some 0\<rparr>"
    by (simp add: with_chan_field_def WithFields_def root_def NewLogger_def clone_def
        make_Fields_def empty_heap_def Let_def)
  have d: "deref (fst with_chan_field) (snd with_chan_field) = [(''conn'', Chan 0)]"
    by (simp add: with_chan_field_def WithFields_def root_def NewLogger_def clone_def
        make_Fields_def empty_heap_def map_assign_def deref_def Let_def)
  have m: "Marshal env_rejecting
         (JSONFormat env_rejecting (fst with_chan_field) (snd with_chan_field) ''hello'') = None"
    by (simp add: JSONFormat_def d env_rejecting_def unsupported_def Let_def)
  have v: "level (snd with_chan_field) \<in> defined_levels"
    by (simp add: l root_def NewLogger_def defined_levels_def LevelDebug_def)
  have "Output env_rejecting (fst with_chan_field) (snd with_chan_field) ''hello'' no_writes
         = log_Print env_rejecting (newLogger (snd with_chan_field)) [] no_writes"
    by (simp only: Output_defined [OF v] m option.case)
  also have "\<dots> = Inr (no_writes(0 := [[newline]]))"
    by (simp add: l root_def NewLogger_def log_New_def log_Print_def no_writes_def
        env_rejecting_def)
  finally show ?thesis
    using d m by simp
qed

text \<open>
  C2, amended. When serialization fails on a logger with a line writer and a level among the
  six constants, the writer receives exactly one write: the line writer's header followed
  by a line feed, and no part of a JSON text.
\<close>

theorem Output_marshal_failure:
  assumes "Marshal e (JSONFormat e h l message) = None"
    and "level l \<in> defined_levels"
    and "newLogger l = Some g"
  shows "Output e h l message ws =
     Inr (ws(out g := ws (out g) @ [formatHeader e (prefix g) (flag g) @ [newline]]))"
  using assms by (simp add: Output_defined log_Print_def)

theorem Output_marshal_failure_witness:
  "Marshal env_rejecting
     (JSONFormat env_rejecting (fst with_chan_field) (snd with_chan_field) ''hello'') = None
   \<and> level (snd with_chan_field) \<in> defined_levels
   \<and> newLogger (snd with_chan_field) = Some (log_New 0 [] 0)
   \<and> Output env_rejecting (fst with_chan_field) (snd with_chan_field) ''hello'' no_writes
         = Inr (no_writes(0 := [[newline]]))"
proof -
  have l: "snd with_chan_field = root\<lparr>fields' := Some 0\<rparr>"
    by (simp add: with_chan_field_def WithFields_def root_def NewLogger_def clone_def
        make_Fields_def empty_heap_def Let_def)
  have c: "deref (fst with_chan_field) (snd with_chan_field) = [(''conn'', Chan 0)]"
    by (simp add: with_chan_field_def WithFields_def root_def NewLogger_def clone_def
        make_Fields_def empty_heap_def map_assign_def deref_def Let_def)
  have m: "Marshal env_rejecting
     (JSONFormat env_rejecting (fst with_chan_field) (snd with_chan_field) ''hello'') = None"
    by (simp add: JSONFormat_def c env_rejecting_def unsupported_def Let_def)
  have d: "level (snd with_chan_field) \<in> defined_levels"
    by (simp add: l root_def NewLogger_def defined_levels_def LevelDebug_def)
  have g: "newLogger (snd with_chan_field) = Some (log_New 0 [] 0)"
    by (simp add: l root_def NewLogger_def)
  show ?thesis
    using m d g Output_marshal_failure [OF m d g, of no_writes]
    by (simp add: log_New_def env_rejecting_def no_writes_def)
qed

text \<open>
  C10. For a level that is none of the six constants, \<^verbatim>\<open>Level.String\<close> is the empty
  string and \<^verbatim>\<open>Output\<close> leaves every writer as it was.
\<close>

theorem Output_undefined_level:
  assumes "level l \<notin> defined_levels"
  shows "Level_String (level l) = [] \<and> Output e h l message ws = Inr ws"
proof -
  from assms have "Level_String (level l) = []"
    by (simp add: defined_levels_def Level_String_def)
  moreover from assms have "Output e h l message ws = Inr ws"
    by (rule Output_undefined)
  ultimately show ?thesis by simp
qed

theorem Output_undefined_level_witness:
  "level with_level_six \<notin> defined_levels
   \<and> Level_String (level with_level_six) = []
   \<and> Output env_accepting empty_heap with_level_six ''hello'' no_writes = Inr no_writes"
proof -
  have u: "level with_level_six \<notin> defined_levels"
    by (simp add: with_level_six_def WithLevel_def clone_def defined_levels_def Let_def
        LevelDebug_def LevelInfo_def LevelWarn_def LevelError_def LevelFatal_def LevelPanic_def)
  show ?thesis
    using u Output_undefined_level [OF u, of env_accepting empty_heap "''hello''" no_writes]
    by simp
qed

subsection \<open>Leveled entry points\<close>

text \<open>
  C7. Each of the twelve entry points is the specification's two-step description: derive
  a logger with the severity, then emit the concatenated or formatted message. On a logger
  with a line writer, the \<open>Fatal\<close> and \<open>Panic\<close> entry points return normally.
\<close>

theorem leveled_calls_refine:
  "Debug e h l v ws = withLevel_then_emit e h l LevelDebug (Sprint e v) ws
   \<and> Debugf e h l format v ws = withLevel_then_emit e h l LevelDebug (Sprintf e format v) ws
   \<and> Info e h l v ws = withLevel_then_emit e h l LevelInfo (Sprint e v) ws
   \<and> Infof e h l format v ws = withLevel_then_emit e h l LevelInfo (Sprintf e format v) ws
   \<and> Warn e h l v ws = withLevel_then_emit e h l LevelWarn (Sprint e v) ws
   \<and> Warnf e h l format v ws = withLevel_then_emit e h l LevelWarn (Sprintf e format v) ws
   \<and> Error e h l v ws = withLevel_then_emit e h l LevelError (Sprint e v) ws
   \<and> Errorf e h l format v ws = withLevel_then_emit e h l LevelError (Sprintf e format v) ws
   \<and> Fatal e h l v ws = withLevel_then_emit e h l LevelFatal (Sprint e v) ws
   \<and> Fatalf e h l format v ws = withLevel_then_emit e h l LevelFatal (Sprintf e format v) ws
   \<and> Panic e h l v ws = withLevel_then_emit e h l LevelPanic (Sprint e v) ws
   \<and> Panicf e h l format v ws = withLevel_then_emit e h l LevelPanic (Sprintf e format v) ws
   \<and> (newLogger l \<noteq> None \<longrightarrow>
        (\<exists>ws'. Fatal e h l v ws = Inr ws') \<and> (\<exists>ws'. Fatalf e h l format v ws = Inr ws')
        \<and> (\<exists>ws'. Panic e h l v ws = Inr ws') \<and> (\<exists>ws'. Panicf e h l format v ws = Inr ws'))"
proof -
  have eqs: "Debug e h l v ws = withLevel_then_emit e h l LevelDebug (Sprint e v) ws"
    "Debugf e h l format v ws = withLevel_then_emit e h l LevelDebug (Sprintf e format v) ws"
    "Info e h l v ws = withLevel_then_emit e h l LevelInfo (Sprint e v) ws"
    "Infof e h l format v ws = withLevel_then_emit e h l LevelInfo (Sprintf e format v) ws"
    "Warn e h l v ws = withLevel_then_emit e h l LevelWarn (Sprint e v) ws"
    "Warnf e h l format v ws = withLevel_then_emit e h l LevelWarn (Sprintf e format v) ws"
    "Error e h l v ws = withLevel_then_emit e h l LevelError (Sprint e v) ws"
    "Errorf e h l format v ws = withLevel_then_emit e h l LevelError (Sprintf e format v) ws"
    "Fatal e h l v ws = withLevel_then_emit e h l LevelFatal (Sprint e v) ws"
    "Fatalf e h l format v ws = withLevel_then_emit e h l LevelFatal (Sprintf e format v) ws"
    "Panic e h l v ws = withLevel_then_emit e h l LevelPanic (Sprint e v) ws"
    "Panicf e h l format v ws = withLevel_then_emit e h l LevelPanic (Sprintf e format v) ws"
    unfolding Debug_def Debugf_def Info_def Infof_def Warn_def Warnf_def Error_def Errorf_def
      Fatal_def Fatalf_def Panic_def Panicf_def withLevel_then_emit_def
    by (rule refl)+
  have ret: "\<exists>ws'. Output e h (WithLevel l lvl) m ws = Inr ws'" if "newLogger l \<noteq> None" for lvl m
  proof -
    from that obtain g where "newLogger (WithLevel l lvl) = Some g"
      by (auto simp add: newLogger_WithLevel)
    then show ?thesis by (rule Output_returns)
  qed
  have "newLogger l \<noteq> None \<longrightarrow>
        (\<exists>ws'. Fatal e h l v ws = Inr ws') \<and> (\<exists>ws'. Fatalf e h l format v ws = Inr ws')
        \<and> (\<exists>ws'. Panic e h l v ws = Inr ws') \<and> (\<exists>ws'. Panicf e h l format v ws = Inr ws')"
    unfolding Fatal_def Fatalf_def Panic_def Panicf_def
    using ret by blast
  with eqs show ?thesis by blast
qed

theorem leveled_calls_refine_witness:
  "newLogger root \<noteq> None
   \<and> Fatal env_accepting empty_heap root [] no_writes = Inr (no_writes(0 := [''{}'' @ [newline]]))
   \<and> Panicf env_accepting empty_heap root ''x'' [] no_writes
        = Inr (no_writes(0 := [''{}'' @ [newline]]))"
proof -
  have g: "newLogger root \<noteq> None"
    by (simp add: root_def NewLogger_def)
  show ?thesis
    using g leveled_calls_refine [of env_accepting empty_heap root "[]" no_writes "''x''"]
    by (simp add: withLevel_then_emit_def Output_def log_Print_def WithLevel_def clone_def
        root_def NewLogger_def log_New_def env_accepting_def no_writes_def newline_def Let_def
        LevelDebug_def LevelInfo_def LevelWarn_def LevelError_def LevelFatal_def LevelPanic_def
        Fatal_def Panicf_def)
qed

end
